theory Spec2Isabelle
  imports Main "HOL-Library.AList"
begin

section \<open>The seeding script \<^verbatim>\<open>scripts/seed_database.py\<close>\<close>

text \<open>
  The script calls three libraries: the database driver, the dataframe library and the
  operating system. Their answers are not computed by the script, so they are parameters
  of the model (the record \<open>world\<close>), and what the script does to them is recorded as the
  list of calls it issues, in order (the \<open>event\<close> list every function returns beside its
  result). A call that performs network or file input and output may raise; its answer is
  a sum, \<open>Inl\<close> carrying the exception. The type \<open>'e\<close> stands for the instances of
  Python's class \<^verbatim>\<open>Exception\<close> that these calls raise, which is the class the script's
  handlers name. Looking a database up by name (\<^verbatim>\<open>client[db_name]\<close>, line 65) performs no
  input or output, but the driver refuses some names (the empty name, a name with a dot
  in it) with an exception, so its answer is a parameter too. Constructing the client
  (\<^verbatim>\<open>MongoClient(uri)\<close>), taking the collection of the fixed name (\<^verbatim>\<open>db['reports']\<close>),
  printing and sleeping are taken to return normally.
\<close>

subsection \<open>Data\<close>

text \<open>
  A dataframe: its column labels in order, and its rows, each a list of cells aligned with
  the labels.
\<close>

record 'v dataframe =
  columns :: "string list"
  rows :: "'v list list"

text \<open>A Python \<^verbatim>\<open>dict\<close>: its items in insertion order, the keys distinct.\<close>

type_synonym 'v document = "(string \<times> 'v) list"

datatype engine = Openpyxl | Xlrd

datatype client = MongoClient string

text \<open>
  What a function of the script raises: an exception of a library call that nothing
  caught, the exception the connectivity waiter builds with \<^verbatim>\<open>raise ... from e\<close> (the
  argument is the cause \<^verbatim>\<open>e\<close>), or the \<^verbatim>\<open>TypeError\<close> of subscripting \<^verbatim>\<open>None\<close>.
\<close>

datatype 'e exn =
    Raised 'e
  | CouldNotConnect 'e
  | NoneNotSubscriptable

text \<open>The lines the script prints, each with the values its format string inserts.\<close>

datatype 'e message =
    MongoAvailable
  | MongoNotYet int int
  | LoadingExcel string
  | ExcelLoadFailed 'e
  | TryingXlrd
  | XlrdLoadFailed 'e
  | FallingBackCsv
  | AlreadyHas nat
  | Seeded nat string

datatype ('e, 'v) event =
    EnvGet string
  | NewClient string
  | IsMaster
  | Sleep nat
  | Print "'e message"
  | ReadExcel engine string
  | ReadCsv string
  | CountDocuments string string
  | InsertMany string string "'v document list"

text \<open>
  The answers of the outside world. \<open>ismaster w i\<close> is the outcome of the probe issued in
  iteration \<open>i\<close> of the waiter's loop (\<open>None\<close>: the command returned; \<open>Some e\<close>: it raised
  \<open>e\<close>). \<open>get_database w name\<close> is the outcome of \<^verbatim>\<open>client[name]\<close> (\<open>None\<close>: a handle is
  returned; \<open>Some e\<close>: the driver raised \<open>e\<close>, as it does for a name it refuses).
  \<open>insert_many\<close> answers with the number of inserted ids.
\<close>

record ('e, 'v) world =
  ismaster :: "nat \<Rightarrow> 'e option"
  read_excel :: "engine \<Rightarrow> string \<Rightarrow> 'e + 'v dataframe"
  read_csv :: "string \<Rightarrow> 'e + 'v dataframe"
  get_database :: "string \<Rightarrow> 'e option"
  count_documents :: "string \<Rightarrow> string \<Rightarrow> 'e + nat"
  insert_many :: "string \<Rightarrow> string \<Rightarrow> 'v document list \<Rightarrow> 'e + nat"

subsection \<open>\<^verbatim>\<open>wait_for_mongodb\<close> (lines 11 to 26)\<close>

text \<open>
  The body of \<^verbatim>\<open>for i in range(max_retries)\<close>, over the values of \<open>i\<close> still to come.
  When the values are used up the loop ends and line 26 returns \<^verbatim>\<open>None\<close>.
\<close>

fun wait_loop ::
  "('e, 'v) world \<Rightarrow> client \<Rightarrow> int \<Rightarrow> nat \<Rightarrow> nat list
    \<Rightarrow> ('e exn + client option) \<times> ('e, 'v) event list" where
  "wait_loop w c max_retries delay [] = (Inr None, [])"
| "wait_loop w c max_retries delay (i # is) =
     (case ismaster w i of
        None \<Rightarrow> (Inr (Some c), [IsMaster, Print MongoAvailable])
      | Some e \<Rightarrow>
          if int i < max_retries - 1 then
            (let (r, evs) = wait_loop w c max_retries delay is
             in (r, [IsMaster, Print (MongoNotYet (int i + 1) max_retries), Sleep delay] @ evs))
          else (Inl (CouldNotConnect e), [IsMaster]))"

definition wait_for_mongodb ::
  "('e, 'v) world \<Rightarrow> string \<Rightarrow> int \<Rightarrow> nat
    \<Rightarrow> ('e exn + client option) \<times> ('e, 'v) event list" where
  "wait_for_mongodb w uri max_retries delay =
     (let (r, evs) = wait_loop w (MongoClient uri) max_retries delay [0..<nat max_retries]
      in (r, NewClient uri # evs))"

subsection \<open>\<^verbatim>\<open>load_dataset\<close> (lines 28 to 53)\<close>

text \<open>
  \<^verbatim>\<open>df.drop(label, axis=1)\<close>: every column with that label goes, with its cell in each
  row.
\<close>

definition drop_column :: "string \<Rightarrow> 'v dataframe \<Rightarrow> 'v dataframe" where
  "drop_column label df =
     \<lparr>columns = filter (\<lambda>c. c \<noteq> label) (columns df),
      rows = map (\<lambda>row. map snd (filter (\<lambda>(c, v). c \<noteq> label) (zip (columns df) row)))
               (rows df)\<rparr>"

text \<open>Lines 49 to 53.\<close>

definition clean_up :: "'v dataframe \<Rightarrow> 'v dataframe" where
  "clean_up df =
     (if ''Unnamed: 0'' \<in> set (columns df) then drop_column ''Unnamed: 0'' df else df)"

text \<open>
  Lines 33 to 47, the nested \<^verbatim>\<open>try\<close> statements: the parsed dataframe, or the exception
  that leaves the innermost handler.
\<close>

definition parse_file ::
  "('e, 'v) world \<Rightarrow> string \<Rightarrow> ('e exn + 'v dataframe) \<times> ('e, 'v) event list" where
  "parse_file w file_path =
     (case read_excel w Openpyxl file_path of
        Inr df \<Rightarrow> (Inr df, [Print (LoadingExcel file_path), ReadExcel Openpyxl file_path])
      | Inl e \<Rightarrow>
          (case read_excel w Xlrd file_path of
             Inr df \<Rightarrow>
               (Inr df,
                [Print (LoadingExcel file_path), ReadExcel Openpyxl file_path,
                 Print (ExcelLoadFailed e), Print TryingXlrd, ReadExcel Xlrd file_path])
           | Inl xlrd_error \<Rightarrow>
               (case read_csv w file_path of
                  Inr df \<Rightarrow>
                    (Inr df,
                     [Print (LoadingExcel file_path), ReadExcel Openpyxl file_path,
                      Print (ExcelLoadFailed e), Print TryingXlrd, ReadExcel Xlrd file_path,
                      Print (XlrdLoadFailed xlrd_error), Print FallingBackCsv,
                      ReadCsv file_path])
                | Inl csv_error \<Rightarrow>
                    (Inl (Raised csv_error),
                     [Print (LoadingExcel file_path), ReadExcel Openpyxl file_path,
                      Print (ExcelLoadFailed e), Print TryingXlrd, ReadExcel Xlrd file_path,
                      Print (XlrdLoadFailed xlrd_error), Print FallingBackCsv,
                      ReadCsv file_path]))))"

definition load_dataset ::
  "('e, 'v) world \<Rightarrow> string \<Rightarrow> ('e exn + 'v dataframe) \<times> ('e, 'v) event list" where
  "load_dataset w file_path =
     (case parse_file w file_path of
        (Inl x, evs) \<Rightarrow> (Inl x, evs)
      | (Inr df, evs) \<Rightarrow> (Inr (clean_up df), evs))"

subsection \<open>\<^verbatim>\<open>main\<close> (lines 55 to 82)\<close>

text \<open>\<^verbatim>\<open>os.environ.get(name, default)\<close>.\<close>

definition environ_get :: "(string \<rightharpoonup> string) \<Rightarrow> string \<Rightarrow> string \<Rightarrow> string" where
  "environ_get env name dflt = (case env name of None \<Rightarrow> dflt | Some v \<Rightarrow> v)"

text \<open>
  \<^verbatim>\<open>s.split(sep)\<close> for a separator of one character: the pieces between the separators,
  never an empty list.
\<close>

fun split :: "char \<Rightarrow> string \<Rightarrow> string list" where
  "split sep [] = [[]]"
| "split sep (x # xs) =
     (if x = sep then [] # split sep xs
      else (case split sep xs of
              [] \<Rightarrow> [[x]]
            | piece # pieces \<Rightarrow> (x # piece) # pieces))"

text \<open>
  \<^verbatim>\<open>dict(items)\<close>: a key that comes again keeps its place and takes the later value.
  \<^verbatim>\<open>df.to_dict('records')\<close> builds one such dictionary for each row, from the column
  labels and the row's cells.
\<close>

definition dict :: "(string \<times> 'v) list \<Rightarrow> 'v document" where
  "dict items = fold (\<lambda>(k, v). AList.update k v) items []"

definition to_dict_records :: "'v dataframe \<Rightarrow> 'v document list" where
  "to_dict_records df = map (\<lambda>row. dict (zip (columns df) row)) (rows df)"

definition main ::
  "('e, 'v) world \<Rightarrow> (string \<rightharpoonup> string) \<Rightarrow> ('e exn + unit) \<times> ('e, 'v) event list" where
  "main w env =
     (let mongo_uri = environ_get env ''MONGO_URI'' ''mongodb://mongodb:27017/german_credit'';
          dataset_path = environ_get env ''DATASET_PATH'' ''/app/german_credit_data.xls'';
          evs0 = [EnvGet ''MONGO_URI'', EnvGet ''DATASET_PATH''];
          (r, evs1) = wait_for_mongodb w mongo_uri 30 2
      in case r of
           Inl x \<Rightarrow> (Inl x, evs0 @ evs1)
         | Inr None \<Rightarrow> (Inl NoneNotSubscriptable, evs0 @ evs1)
         | Inr (Some c) \<Rightarrow>
             (let db_name = last (split CHR ''/'' mongo_uri)
              in case get_database w db_name of
                   Some e \<Rightarrow> (Inl (Raised e), evs0 @ evs1)
                 | None \<Rightarrow>
                     (let evs2 = evs0 @ evs1 @ [CountDocuments db_name ''reports'']
                      in case count_documents w db_name ''reports'' of
                           Inl e \<Rightarrow> (Inl (Raised e), evs2)
                         | Inr count \<Rightarrow>
                             if count > 0 then (Inr (), evs2 @ [Print (AlreadyHas count)])
                             else
                               (let (rd, evs3) = load_dataset w dataset_path
                                in case rd of
                                     Inl x \<Rightarrow> (Inl x, evs2 @ evs3)
                                   | Inr df \<Rightarrow>
                                       (let records = to_dict_records df;
                                            evs4 = evs2 @ evs3 @
                                              [InsertMany db_name ''reports'' records]
                                        in case insert_many w db_name ''reports'' records of
                                             Inl e \<Rightarrow> (Inl (Raised e), evs4)
                                           | Inr n \<Rightarrow>
                                               (Inr (), evs4 @ [Print (Seeded n db_name)]))))))"

subsection \<open>Reading a run\<close>

text \<open>The kinds of call a property counts or excludes.\<close>

fun is_env_get :: "('e, 'v) event \<Rightarrow> bool" where
  "is_env_get (EnvGet name) = True"
| "is_env_get _ = False"

fun is_probe :: "('e, 'v) event \<Rightarrow> bool" where
  "is_probe IsMaster = True"
| "is_probe _ = False"

fun is_sleep :: "('e, 'v) event \<Rightarrow> bool" where
  "is_sleep (Sleep d) = True"
| "is_sleep _ = False"

fun is_parse :: "('e, 'v) event \<Rightarrow> bool" where
  "is_parse (ReadExcel eng path) = True"
| "is_parse (ReadCsv path) = True"
| "is_parse _ = False"

fun is_insert :: "('e, 'v) event \<Rightarrow> bool" where
  "is_insert (InsertMany db coll docs) = True"
| "is_insert _ = False"

text \<open>The database and collection a call to the database names, if it names one.\<close>

fun target :: "('e, 'v) event \<Rightarrow> (string \<times> string) option" where
  "target (CountDocuments db coll) = Some (db, coll)"
| "target (InsertMany db coll docs) = Some (db, coll)"
| "target _ = None"

text \<open>The file a call to a parser reads, if it is one.\<close>

fun parsed_path :: "('e, 'v) event \<Rightarrow> string option" where
  "parsed_path (ReadExcel eng path) = Some path"
| "parsed_path (ReadCsv path) = Some path"
| "parsed_path _ = None"

text \<open>
  What the waiter does in the iterations \<open>is\<close> when the probe fails in each and another
  iteration follows: the probe, the line it prints, the sleep.
\<close>

definition failed_attempts :: "int \<Rightarrow> nat \<Rightarrow> nat list \<Rightarrow> ('e, 'v) event list" where
  "failed_attempts max_retries delay is =
     concat (map (\<lambda>i. [IsMaster, Print (MongoNotYet (int i + 1) max_retries), Sleep delay]) is)"

text \<open>
  From the specification of the loader: the strategies are tried in order, the first one
  that succeeds gives the result, and when none does the failure of the last one is the
  result. The argument lists the outcome of each strategy.
\<close>

fun first_success_spec :: "'e + 'a \<Rightarrow> ('e + 'a) list \<Rightarrow> 'e + 'a" where
  "first_success_spec r [] = r"
| "first_success_spec r (r' # rs) =
     (case r of Inr x \<Rightarrow> Inr x | Inl e \<Rightarrow> first_success_spec r' rs)"

text \<open>How many of the strategies that policy tries.\<close>

fun tried_spec :: "'e + 'a \<Rightarrow> ('e + 'a) list \<Rightarrow> nat" where
  "tried_spec r [] = 1"
| "tried_spec r (r' # rs) = (case r of Inr x \<Rightarrow> 1 | Inl e \<Rightarrow> Suc (tried_spec r' rs))"

subsection \<open>Sample runs\<close>

text \<open>
  A dataframe as the parsers give it for a sheet saved with its index, and worlds in
  which the service answers from probe \<open>k\<close> on, the parsers answer \<open>r1\<close>, \<open>r2\<close> and \<open>r3\<close>,
  the driver refuses the empty database name and a name with a dot in it, the collection
  holds \<open>n\<close> documents and an insert reports one id for each document.
\<close>

definition credit_frame :: "int dataframe" where
  "credit_frame =
     \<lparr>columns = [''Unnamed: 0'', ''Age'', ''Job''], rows = [[0, 67, 2], [1, 22, 2]]\<rparr>"

definition sample_world ::
  "nat \<Rightarrow> string + int dataframe \<Rightarrow> string + int dataframe \<Rightarrow> string + int dataframe \<Rightarrow> nat
    \<Rightarrow> (string, int) world" where
  "sample_world k r1 r2 r3 n =
     \<lparr>ismaster = (\<lambda>i. if i < k then Some ''connection refused'' else None),
      read_excel = (\<lambda>eng path. case eng of Openpyxl \<Rightarrow> r1 | Xlrd \<Rightarrow> r2),
      read_csv = (\<lambda>path. r3),
      get_database = (\<lambda>name. if name = [] \<or> CHR ''.'' \<in> set name
                               then Some ''InvalidName'' else None),
      count_documents = (\<lambda>db coll. Inr n),
      insert_many = (\<lambda>db coll docs. Inr (length docs))\<rparr>"

section \<open>Properties\<close>

subsection \<open>The waiter's loop\<close>

lemma failed_attempts_Nil [simp]: "failed_attempts m d [] = []"
  by (simp add: failed_attempts_def)

lemma failed_attempts_Cons [simp]:
  "failed_attempts m d (i # is) =
     IsMaster # Print (MongoNotYet (int i + 1) m) # Sleep d # failed_attempts m d is"
  by (simp add: failed_attempts_def)

lemma sleeps_failed_attempts [simp]:
  "length (filter is_sleep (failed_attempts m d is)) = length is"
  by (induction "is") simp_all

lemma probes_failed_attempts [simp]:
  "length (filter is_probe (failed_attempts m d is)) = length is"
  by (induction "is") simp_all

text \<open>
  The loop from iteration \<open>a\<close> on, when the probe fails in the iterations before \<open>k\<close> and
  returns in iteration \<open>k\<close>.
\<close>

lemma wait_loop_success:
  assumes "\<forall>i. a \<le> i \<and> i < k \<longrightarrow> ismaster w i \<noteq> None"
    and "ismaster w k = None" and "a \<le> k" and "k < n" and "int n \<le> m"
  shows "wait_loop w c m d [a..<n] =
           (Inr (Some c), failed_attempts m d [a..<k] @ [IsMaster, Print MongoAvailable])"
  using assms
proof (induction "k - a" arbitrary: a)
  case 0
  then have "a = k" by simp
  with 0 show ?case by (simp add: upt_conv_Cons)
next
  case (Suc j)
  then have lt: "a < k" and an: "a < n" by simp_all
  from Suc.prems lt obtain e where e: "ismaster w a = Some e" by auto
  have small: "int a < m - 1" using lt Suc.prems by simp
  have "j = k - Suc a" using Suc.hyps by simp
  then have IH: "wait_loop w c m d [Suc a..<n] =
           (Inr (Some c), failed_attempts m d [Suc a..<k] @ [IsMaster, Print MongoAvailable])"
    using Suc.prems lt by (intro Suc.hyps(1)) auto
  show ?case using e small IH lt an by (simp add: upt_conv_Cons)
qed

text \<open>The loop from iteration \<open>a\<close> on, when the probe fails in every iteration.\<close>

lemma wait_loop_exhausted:
  assumes "\<forall>i. a \<le> i \<and> i < n \<longrightarrow> ismaster w i \<noteq> None" and "a < n"
  shows "wait_loop w c (int n) d [a..<n] =
           (Inl (CouldNotConnect (the (ismaster w (n - 1)))),
            failed_attempts (int n) d [a..<n - 1] @ [IsMaster])"
  using assms
proof (induction "n - a" arbitrary: a)
  case 0
  then show ?case by simp
next
  case (Suc j)
  from Suc.prems obtain e where e: "ismaster w a = Some e" by auto
  show ?case
  proof (cases "Suc a = n")
    case True
    then have "[a..<n] = [a]" "n - 1 = a" by (auto simp: upt_conv_Cons)
    with e show ?thesis by simp
  next
    case False
    with Suc.prems have lt: "Suc a < n" by simp
    have "j = n - Suc a" using Suc.hyps by simp
    then have IH: "wait_loop w c (int n) d [Suc a..<n] =
           (Inl (CouldNotConnect (the (ismaster w (n - 1)))),
            failed_attempts (int n) d [Suc a..<n - 1] @ [IsMaster])"
      using Suc.prems lt by (intro Suc.hyps(1)) auto
    have small: "int a < int n - 1" using lt by simp
    have "[a..<n] = a # [Suc a..<n]" "[a..<n - 1] = a # [Suc a..<n - 1]"
      using lt by (simp_all add: upt_conv_Cons)
    then show ?thesis using e small IH by simp
  qed
qed

subsection \<open>The connectivity waiter\<close>

text \<open>
  Claim C5. When \<open>max_retries\<close> is at least one and every one of the \<open>max_retries\<close> probes
  fails, the waiter raises: its result is the one exception it builds, whose cause is the
  failure of the last probe, and the run is \<open>max_retries\<close> probes with a sleep after each
  but the last, so \<open>max_retries - 1\<close> sleeps.
\<close>

theorem wait_for_mongodb_exhausted:
  assumes "1 \<le> max_retries"
    and "\<forall>i < nat max_retries. ismaster w i \<noteq> None"
  shows "\<exists>e. ismaster w (nat max_retries - 1) = Some e
      \<and> wait_for_mongodb w uri max_retries delay =
          (Inl (CouldNotConnect e),
           NewClient uri # failed_attempts max_retries delay [0..<nat max_retries - 1]
             @ [IsMaster])
      \<and> length (filter is_sleep (snd (wait_for_mongodb w uri max_retries delay)))
          = nat max_retries - 1
      \<and> length (filter is_probe (snd (wait_for_mongodb w uri max_retries delay)))
          = nat max_retries"
proof -
  have "max_retries = int (nat max_retries)" "0 < nat max_retries"
    using assms(1) by simp_all
  then obtain n where n: "max_retries = int n" "0 < n" by blast
  have all: "\<forall>i. 0 \<le> i \<and> i < n \<longrightarrow> ismaster w i \<noteq> None"
    using assms(2) n by simp
  then have "ismaster w (n - 1) \<noteq> None" using n(2) by simp
  then obtain e where e: "ismaster w (n - 1) = Some e" by auto
  have "wait_loop w (MongoClient uri) (int n) delay [0..<n] =
      (Inl (CouldNotConnect (the (ismaster w (n - 1)))),
       failed_attempts (int n) delay [0..<n - 1] @ [IsMaster])"
    using all n(2) by (rule wait_loop_exhausted)
  then have "wait_for_mongodb w uri (int n) delay =
          (Inl (CouldNotConnect e),
           NewClient uri # failed_attempts (int n) delay [0..<n - 1] @ [IsMaster])"
    using e by (simp add: wait_for_mongodb_def)
  then show ?thesis using e n by simp
qed

theorem wait_for_mongodb_exhausted_witness:
  "\<exists>e. ismaster (sample_world 3 (Inl ''a'') (Inl ''b'') (Inl ''c'') 0) (nat 3 - 1) = Some e
      \<and> wait_for_mongodb (sample_world 3 (Inl ''a'') (Inl ''b'') (Inl ''c'') 0) ''mongodb://db:27017/credit'' 3 2 =
          (Inl (CouldNotConnect e),
           NewClient ''mongodb://db:27017/credit'' # failed_attempts 3 2 [0..<nat 3 - 1]
             @ [IsMaster])
      \<and> length (filter is_sleep (snd (wait_for_mongodb (sample_world 3 (Inl ''a'') (Inl ''b'') (Inl ''c'') 0) ''mongodb://db:27017/credit'' 3 2)))
          = nat 3 - 1
      \<and> length (filter is_probe (snd (wait_for_mongodb (sample_world 3 (Inl ''a'') (Inl ''b'') (Inl ''c'') 0) ''mongodb://db:27017/credit'' 3 2)))
          = nat 3"
proof -
  have h1: "1 \<le> (3::int)" by simp
  have h2: "\<forall>i < nat 3. ismaster (sample_world 3 (Inl ''a'') (Inl ''b'') (Inl ''c'') 0) i \<noteq> None"
    by (simp add: sample_world_def)
  show ?thesis by (rule wait_for_mongodb_exhausted [OF h1 h2])
qed

text \<open>
  Claim C6. When the probe fails in the first \<open>k - 1\<close> attempts and returns in attempt \<open>k\<close>,
  with \<open>1 \<le> k \<le> max_retries\<close>, the waiter returns the client handle, and the run ends
  with that probe and the line printed after it: \<open>k\<close> probes and \<open>k - 1\<close> sleeps, none
  when \<open>k = 1\<close>.
\<close>

theorem wait_for_mongodb_success:
  assumes "1 \<le> k" and "int k \<le> max_retries"
    and "\<forall>i < k - 1. ismaster w i \<noteq> None"
    and "ismaster w (k - 1) = None"
  shows "wait_for_mongodb w uri max_retries delay =
          (Inr (Some (MongoClient uri)),
           NewClient uri # failed_attempts max_retries delay [0..<k - 1]
             @ [IsMaster, Print MongoAvailable])
      \<and> length (filter is_sleep (snd (wait_for_mongodb w uri max_retries delay))) = k - 1
      \<and> length (filter is_probe (snd (wait_for_mongodb w uri max_retries delay))) = k"
proof -
  have "wait_loop w (MongoClient uri) max_retries delay [0..<nat max_retries] =
      (Inr (Some (MongoClient uri)),
       failed_attempts max_retries delay [0..<k - 1] @ [IsMaster, Print MongoAvailable])"
    using assms by (intro wait_loop_success) auto
  then have "wait_for_mongodb w uri max_retries delay =
          (Inr (Some (MongoClient uri)),
           NewClient uri # failed_attempts max_retries delay [0..<k - 1]
             @ [IsMaster, Print MongoAvailable])"
    by (simp add: wait_for_mongodb_def)
  then show ?thesis using assms(1) by simp
qed

theorem wait_for_mongodb_success_witness:
  "wait_for_mongodb (sample_world 2 (Inl ''a'') (Inl ''b'') (Inl ''c'') 0)
       ''mongodb://db:27017/credit'' 30 2 =
          (Inr (Some (MongoClient ''mongodb://db:27017/credit'')),
           NewClient ''mongodb://db:27017/credit'' # failed_attempts 30 2 [0..<3 - 1]
             @ [IsMaster, Print MongoAvailable])
      \<and> length (filter is_sleep (snd (wait_for_mongodb
            (sample_world 2 (Inl ''a'') (Inl ''b'') (Inl ''c'') 0)
            ''mongodb://db:27017/credit'' 30 2))) = 3 - 1
      \<and> length (filter is_probe (snd (wait_for_mongodb
            (sample_world 2 (Inl ''a'') (Inl ''b'') (Inl ''c'') 0)
            ''mongodb://db:27017/credit'' 30 2))) = 3"
proof -
  have h1: "1 \<le> (3::nat)" by simp
  have h2: "int 3 \<le> 30" by simp
  have h3: "\<forall>i < 3 - 1.
      ismaster (sample_world 2 (Inl ''a'') (Inl ''b'') (Inl ''c'') 0) i \<noteq> None"
    by (simp add: sample_world_def)
  have h4: "ismaster (sample_world 2 (Inl ''a'') (Inl ''b'') (Inl ''c'') 0) (3 - 1) = None"
    by (simp add: sample_world_def)
  show ?thesis by (rule wait_for_mongodb_success [OF h1 h2 h3 h4])
qed

text \<open>
  Claim C9. Called with \<open>max_retries = 0\<close> the waiter issues no probe and no sleep and
  returns \<^verbatim>\<open>None\<close>: it neither raises the exception for a service that cannot be reached
  nor returns a handle.
\<close>

theorem wait_for_mongodb_zero:
  "wait_for_mongodb w uri 0 delay = (Inr None, [NewClient uri])
    \<and> filter is_probe (snd (wait_for_mongodb w uri 0 delay)) = []
    \<and> filter is_sleep (snd (wait_for_mongodb w uri 0 delay)) = []
    \<and> (\<forall>e. fst (wait_for_mongodb w uri 0 delay) \<noteq> Inl (CouldNotConnect e))
    \<and> (\<forall>c. fst (wait_for_mongodb w uri 0 delay) \<noteq> Inr (Some c))"
  by (simp add: wait_for_mongodb_def)

subsection \<open>The dataset loader\<close>

lemma columns_drop_column [simp]:
  "columns (drop_column label df) = filter (\<lambda>c. c \<noteq> label) (columns df)"
  by (simp add: drop_column_def)

lemma length_rows_drop_column [simp]:
  "length (rows (drop_column label df)) = length (rows df)"
  by (simp add: drop_column_def)

lemma zip_fst_snd: "zip (map fst xs) (map snd xs) = xs"
  by (induction xs) auto

lemma filter_zip_keys:
  "length cols \<le> length row \<Longrightarrow>
     map fst (filter (\<lambda>(c, v). P c) (zip cols row)) = filter P cols"
proof (induction cols arbitrary: row)
  case Nil
  then show ?case by simp
next
  case (Cons c cols)
  then obtain v row' where "row = v # row'" by (cases row) auto
  with Cons show ?case by simp
qed

lemma row_drop_column:
  assumes "i < length (rows df)" and "length (columns df) \<le> length (rows df ! i)"
  shows "zip (columns (drop_column label df)) (rows (drop_column label df) ! i) =
           filter (\<lambda>(c, v). c \<noteq> label) (zip (columns df) (rows df ! i))"
proof -
  let ?kept = "filter (\<lambda>(c, v). c \<noteq> label) (zip (columns df) (rows df ! i))"
  have "rows (drop_column label df) ! i = map snd ?kept"
    using assms(1) by (simp add: drop_column_def)
  moreover have "columns (drop_column label df) = map fst ?kept"
    using filter_zip_keys [OF assms(2), of "\<lambda>c. c \<noteq> label"] by simp
  ultimately show ?thesis by (simp add: zip_fst_snd)
qed

lemma length_row_drop_column:
  assumes "i < length (rows df)" and "length (columns df) \<le> length (rows df ! i)"
  shows "length (rows (drop_column label df) ! i) = length (columns (drop_column label df))"
proof -
  let ?kept = "filter (\<lambda>(c, v). c \<noteq> label) (zip (columns df) (rows df ! i))"
  have "length (rows (drop_column label df) ! i) = length (map fst ?kept)"
    using assms(1) by (simp add: drop_column_def)
  also have "map fst ?kept = filter (\<lambda>c. c \<noteq> label) (columns df)"
    using filter_zip_keys [OF assms(2), of "\<lambda>c. c \<noteq> label"] by simp
  finally show ?thesis by simp
qed

lemma filter_absent: "x \<notin> set xs \<Longrightarrow> filter (\<lambda>y. y \<noteq> x) xs = xs"
  by (induction xs) auto

lemma length_filter_distinct:
  "distinct xs \<Longrightarrow> x \<in> set xs \<Longrightarrow> length (filter (\<lambda>y. y \<noteq> x) xs) = length xs - 1"
proof (induction xs)
  case Nil
  then show ?case by simp
next
  case (Cons a xs)
  show ?case
  proof (cases "a = x")
    case True
    with Cons.prems have "x \<notin> set xs" by simp
    with True show ?thesis by (simp add: filter_absent)
  next
    case False
    with Cons have "length (filter (\<lambda>y. y \<noteq> x) xs) = length xs - 1" "x \<in> set xs"
      by simp_all
    moreover from this(2) have "0 < length xs" by (cases xs) auto
    ultimately show ?thesis using False by simp
  qed
qed

lemma load_dataset_parse:
  "load_dataset w p = (map_sum id clean_up (fst (parse_file w p)), snd (parse_file w p))"
  by (cases "parse_file w p") (auto simp: load_dataset_def split: sum.splits)

text \<open>
  Claim C7. When the parsers give a dataframe \<open>df\<close>, the loader returns a dataframe. It is
  \<open>df\<close> itself when no column is labelled \<^verbatim>\<open>Unnamed: 0\<close>. Otherwise it has the columns of
  \<open>df\<close> but those with that label (one column fewer when the labels are distinct), as many
  rows, and each row has one cell for each column that remains and no other: the cells
  the row had in those columns, under their labels.
\<close>

theorem load_dataset_cleans:
  assumes "fst (parse_file w p) = Inr df"
  shows "\<exists>df'. fst (load_dataset w p) = Inr df'
    \<and> (''Unnamed: 0'' \<notin> set (columns df) \<longrightarrow> df' = df)
    \<and> (''Unnamed: 0'' \<in> set (columns df) \<longrightarrow>
         columns df' = filter (\<lambda>c. c \<noteq> ''Unnamed: 0'') (columns df)
       \<and> (distinct (columns df) \<longrightarrow> length (columns df') = length (columns df) - 1)
       \<and> length (rows df') = length (rows df)
       \<and> (\<forall>i < length (rows df). length (rows df ! i) = length (columns df) \<longrightarrow>
            length (rows df' ! i) = length (columns df')
          \<and> zip (columns df') (rows df' ! i) =
              filter (\<lambda>(c, v). c \<noteq> ''Unnamed: 0'') (zip (columns df) (rows df ! i))))"
proof -
  have r: "fst (load_dataset w p) = Inr (clean_up df)"
    using assms by (simp add: load_dataset_parse)
  show ?thesis
  proof (cases "''Unnamed: 0'' \<in> set (columns df)")
    case False
    with r show ?thesis by (simp add: clean_up_def)
  next
    case True
    let ?df' = "drop_column ''Unnamed: 0'' df"
    from True have c: "clean_up df = ?df'" by (simp add: clean_up_def)
    have cols: "columns ?df' = filter (\<lambda>c. c \<noteq> ''Unnamed: 0'') (columns df)"
      by simp
    have fewer: "length (columns ?df') = length (columns df) - 1" if "distinct (columns df)"
      using that True by (simp add: length_filter_distinct)
    have len: "length (rows ?df') = length (rows df)"
      by simp
    have cells: "length (rows ?df' ! i) = length (columns ?df')
        \<and> zip (columns ?df') (rows ?df' ! i) =
            filter (\<lambda>(c, v). c \<noteq> ''Unnamed: 0'') (zip (columns df) (rows df ! i))"
      if "i < length (rows df)" "length (rows df ! i) = length (columns df)" for i
      using that length_row_drop_column [of i df "''Unnamed: 0''"]
        row_drop_column [of i df "''Unnamed: 0''"]
      by simp
    have "fst (load_dataset w p) = Inr ?df'" using r c by simp
    with True cols fewer len cells show ?thesis by blast
  qed
qed

theorem load_dataset_cleans_witness:
  "fst (load_dataset (sample_world 0 (Inr credit_frame) (Inl ''b'') (Inl ''c'') 0)
         ''/app/german_credit_data.xls'')
     = Inr \<lparr>columns = [''Age'', ''Job''], rows = [[67, 2], [22, 2]]\<rparr>"
proof -
  let ?w = "sample_world 0 (Inr credit_frame) (Inl ''b'') (Inl ''c'') 0"
  have h: "fst (parse_file ?w ''/app/german_credit_data.xls'') = Inr credit_frame"
    by (simp add: parse_file_def sample_world_def)
  have c: "''Unnamed: 0'' \<in> set (columns credit_frame)"
    by (simp add: credit_frame_def)
  have l: "(0::nat) < length (rows credit_frame)" "(1::nat) < length (rows credit_frame)"
    "length (rows credit_frame ! 0) = length (columns credit_frame)"
    "length (rows credit_frame ! 1) = length (columns credit_frame)"
    by (simp_all add: credit_frame_def)
  from load_dataset_cleans [OF h] c l obtain df' where
    res: "fst (load_dataset ?w ''/app/german_credit_data.xls'') = Inr df'"
    and cols: "columns df' = filter (\<lambda>c. c \<noteq> ''Unnamed: 0'') (columns credit_frame)"
    and len: "length (rows df') = length (rows credit_frame)"
    and l0: "length (rows df' ! 0) = length (columns df')"
    and z0: "zip (columns df') (rows df' ! 0) =
       filter (\<lambda>(c, v). c \<noteq> ''Unnamed: 0'') (zip (columns credit_frame) (rows credit_frame ! 0))"
    and l1: "length (rows df' ! 1) = length (columns df')"
    and z1: "zip (columns df') (rows df' ! 1) =
       filter (\<lambda>(c, v). c \<noteq> ''Unnamed: 0'') (zip (columns credit_frame) (rows credit_frame ! 1))"
    by blast
  have "rows df' ! 0 = map snd (zip (columns df') (rows df' ! 0))"
    using l0 by simp
  then have r0: "rows df' ! 0 = [67, 2]"
    unfolding z0 by (simp add: credit_frame_def)
  have "rows df' ! 1 = map snd (zip (columns df') (rows df' ! 1))"
    using l1 by simp
  then have r1: "rows df' ! 1 = [22, 2]"
    unfolding z1 by (simp add: credit_frame_def)
  have "length (rows df') = 2" using len by (simp add: credit_frame_def)
  then obtain a b where ab: "rows df' = [a, b]"
    by (cases "rows df'" rule: list.exhaust; simp)
       (metis length_0_conv length_Suc_conv)
  with r0 r1 have "rows df' = [[67, 2], [22, 2]]" by simp
  moreover have "columns df' = [''Age'', ''Job'']"
    using cols by (simp add: credit_frame_def)
  ultimately have "df' = \<lparr>columns = [''Age'', ''Job''], rows = [[67, 2], [22, 2]]\<rparr>"
    by (cases df') simp
  with res show ?thesis by simp
qed

lemma parse_file_outcome:
  "fst (parse_file w p) =
     map_sum Raised id
       (first_success_spec (read_excel w Openpyxl p) [read_excel w Xlrd p, read_csv w p])"
  by (simp add: parse_file_def split: sum.splits)

lemma parse_file_run:
  "snd (parse_file w p) =
     [Print (LoadingExcel p), ReadExcel Openpyxl p] @
     (case read_excel w Openpyxl p of
        Inr df \<Rightarrow> []
      | Inl e1 \<Rightarrow>
          [Print (ExcelLoadFailed e1), Print TryingXlrd, ReadExcel Xlrd p] @
          (case read_excel w Xlrd p of
             Inr df \<Rightarrow> []
           | Inl e2 \<Rightarrow> [Print (XlrdLoadFailed e2), Print FallingBackCsv, ReadCsv p]))"
  by (simp add: parse_file_def split: sum.splits)

text \<open>
  Claim C4. For every world and file path, the result of the loader is the result of the
  specification's policy over the three parsers in the order openpyxl, xlrd, delimited
  text: the cleaned dataframe of the first that succeeds, or the failure of the third when
  all fail. The run is the call to the first parser, then, if it fails, the line that logs
  its failure and the call to the second, then, if that fails too, the line that logs it
  and the call to the third: the parsers called are the first ones in that order, as many
  as the policy tries.
\<close>

theorem load_dataset_fallback_chain:
  "fst (load_dataset w p) =
     map_sum Raised clean_up
       (first_success_spec (read_excel w Openpyxl p) [read_excel w Xlrd p, read_csv w p])
   \<and> snd (load_dataset w p) =
     [Print (LoadingExcel p), ReadExcel Openpyxl p] @
     (case read_excel w Openpyxl p of
        Inr df \<Rightarrow> []
      | Inl e1 \<Rightarrow>
          [Print (ExcelLoadFailed e1), Print TryingXlrd, ReadExcel Xlrd p] @
          (case read_excel w Xlrd p of
             Inr df \<Rightarrow> []
           | Inl e2 \<Rightarrow> [Print (XlrdLoadFailed e2), Print FallingBackCsv, ReadCsv p]))
   \<and> filter is_parse (snd (load_dataset w p)) =
     take (tried_spec (read_excel w Openpyxl p) [read_excel w Xlrd p, read_csv w p])
       [ReadExcel Openpyxl p, ReadExcel Xlrd p, ReadCsv p]"
proof -
  have "fst (load_dataset w p) = map_sum id clean_up (fst (parse_file w p))"
    by (simp add: load_dataset_parse)
  then have 1: "fst (load_dataset w p) =
     map_sum Raised clean_up
       (first_success_spec (read_excel w Openpyxl p) [read_excel w Xlrd p, read_csv w p])"
    by (simp add: parse_file_outcome map_sum.compositionality comp_def del: first_success_spec.simps)
  have 2: "snd (load_dataset w p) = snd (parse_file w p)"
    by (simp add: load_dataset_parse)
  show ?thesis
    unfolding 1 2 parse_file_run by (simp split: sum.splits)
qed

theorem load_dataset_fallback_chain_witness:
  "fst (load_dataset (sample_world 0 (Inl ''not a zip file'') (Inl ''not an OLE2 file'')
          (Inr credit_frame) 0) ''/app/german_credit_data.xls'')
     = Inr \<lparr>columns = [''Age'', ''Job''], rows = [[67, 2], [22, 2]]\<rparr>
   \<and> snd (load_dataset (sample_world 0 (Inl ''not a zip file'') (Inl ''not an OLE2 file'')
          (Inr credit_frame) 0) ''/app/german_credit_data.xls'')
     = [Print (LoadingExcel ''/app/german_credit_data.xls''),
        ReadExcel Openpyxl ''/app/german_credit_data.xls'',
        Print (ExcelLoadFailed ''not a zip file''), Print TryingXlrd,
        ReadExcel Xlrd ''/app/german_credit_data.xls'',
        Print (XlrdLoadFailed ''not an OLE2 file''), Print FallingBackCsv,
        ReadCsv ''/app/german_credit_data.xls'']"
  using load_dataset_fallback_chain
    [of "sample_world 0 (Inl ''not a zip file'') (Inl ''not an OLE2 file'') (Inr credit_frame) 0"
        "''/app/german_credit_data.xls''"]
  by (simp add: sample_world_def clean_up_def drop_column_def credit_frame_def)

text \<open>
  Claim C10. Whatever exceptions \<open>e1\<close> and \<open>e2\<close> the first two parsers raise, the handlers
  catch them and the next parser is called; when the third parser fails too, with \<open>e3\<close>,
  the loader raises \<open>e3\<close>, and \<open>e1\<close> and \<open>e2\<close> appear only in the lines printed. Python
  records the exception being handled as the context of one raised in a handler; the
  model carries the exception that leaves the function.
\<close>

theorem load_dataset_all_fail:
  assumes "read_excel w Openpyxl p = Inl e1"
    and "read_excel w Xlrd p = Inl e2"
    and "read_csv w p = Inl e3"
  shows "load_dataset w p =
      (Inl (Raised e3),
       [Print (LoadingExcel p), ReadExcel Openpyxl p,
        Print (ExcelLoadFailed e1), Print TryingXlrd, ReadExcel Xlrd p,
        Print (XlrdLoadFailed e2), Print FallingBackCsv, ReadCsv p])"
  using assms by (simp add: load_dataset_def parse_file_def)

theorem load_dataset_all_fail_witness:
  "load_dataset (sample_world 0 (Inl ''No such file or directory'')
       (Inl ''No such file or directory'') (Inl ''no columns to parse'') 0) ''/missing.xls'' =
      (Inl (Raised ''no columns to parse''),
       [Print (LoadingExcel ''/missing.xls''), ReadExcel Openpyxl ''/missing.xls'',
        Print (ExcelLoadFailed ''No such file or directory''), Print TryingXlrd,
        ReadExcel Xlrd ''/missing.xls'',
        Print (XlrdLoadFailed ''No such file or directory''), Print FallingBackCsv,
        ReadCsv ''/missing.xls''])"
proof -
  let ?w = "sample_world 0 (Inl ''No such file or directory'')
       (Inl ''No such file or directory'') (Inl ''no columns to parse'') 0"
  have h1: "read_excel ?w Openpyxl ''/missing.xls'' = Inl ''No such file or directory''"
    and h2: "read_excel ?w Xlrd ''/missing.xls'' = Inl ''No such file or directory''"
    and h3: "read_csv ?w ''/missing.xls'' = Inl ''no columns to parse''"
    by (simp_all add: sample_world_def)
  show ?thesis by (rule load_dataset_all_fail [OF h1 h2 h3])
qed

subsection \<open>Documents and the endpoint\<close>

lemma update_fresh: "k \<notin> fst ` set al \<Longrightarrow> AList.update k v al = al @ [(k, v)]"
  by (induction al) auto

lemma fold_update_distinct:
  "distinct (map fst (acc @ items)) \<Longrightarrow>
     fold (\<lambda>(k, v). AList.update k v) items acc = acc @ items"
proof (induction items arbitrary: acc)
  case Nil
  then show ?case by simp
next
  case (Cons kv items)
  obtain k v where kv: "kv = (k, v)" by (cases kv)
  from Cons.prems kv have fresh: "k \<notin> fst ` set acc" by auto
  from Cons.prems kv have "distinct (map fst ((acc @ [(k, v)]) @ items))" by simp
  then have "fold (\<lambda>(k, v). AList.update k v) items (acc @ [(k, v)]) = (acc @ [(k, v)]) @ items"
    by (rule Cons.IH)
  then show ?case using kv fresh by (simp add: update_fresh)
qed

lemma dict_distinct: "distinct (map fst items) \<Longrightarrow> dict items = items"
  using fold_update_distinct [of "[]" items] by (simp add: dict_def)

lemma distinct_zip_keys: "distinct cols \<Longrightarrow> distinct (map fst (zip cols row))"
  by (simp add: map_fst_zip_take)

lemma to_dict_records_distinct:
  "distinct (columns df) \<Longrightarrow> to_dict_records df = map (zip (columns df)) (rows df)"
  by (simp add: to_dict_records_def dict_distinct distinct_zip_keys)

lemma split_nonempty [simp]: "split c s \<noteq> []"
  by (induction s) (auto split: list.splits)

lemma split_absent: "c \<notin> set s \<Longrightarrow> split c s = [s]"
  by (induction s) auto

lemma split_append: "split c (xs @ c # ys) = split c xs @ split c ys"
proof (induction xs)
  case Nil
  then show ?case by simp
next
  case (Cons x xs)
  obtain p ps where "split c xs = p # ps" using split_nonempty [of c xs] by (cases "split c xs") auto
  with Cons show ?case by simp
qed

lemma last_split:
  "CHR ''/'' \<notin> set (last (split CHR ''/'' s))
    \<and> (s = last (split CHR ''/'' s) \<or> (\<exists>pre. s = pre @ CHR ''/'' # last (split CHR ''/'' s)))"
proof (cases "CHR ''/'' \<in> set s")
  case False
  then show ?thesis by (simp add: split_absent)
next
  case True
  then obtain pre suf where s: "s = pre @ CHR ''/'' # suf" and suf: "CHR ''/'' \<notin> set suf"
    using split_list_last by fastforce
  have l: "last (split CHR ''/'' s) = suf"
    using suf by (simp add: s split_append split_absent)
  have "\<exists>pre. s = pre @ CHR ''/'' # suf" using s by blast
  then show ?thesis unfolding l using suf by simp
qed

lemma after_last_unique:
  assumes "s = pre @ c # seg" and "c \<notin> set seg"
  shows "seg = rev (takeWhile (\<lambda>x. x \<noteq> c) (rev s))"
proof -
  have "takeWhile (\<lambda>x. x \<noteq> c) (rev seg @ c # rev pre) = rev seg"
    using assms(2) by (subst takeWhile_append2) auto
  then show ?thesis using assms(1) by simp
qed


subsection \<open>The calls of a run\<close>

lemma wait_loop_events:
  "ev \<in> set (snd (wait_loop w c m d is)) \<Longrightarrow>
     target ev = None \<and> \<not> is_insert ev \<and> \<not> is_parse ev \<and> \<not> is_env_get ev
       \<and> parsed_path ev = None"
  by (induction "is" arbitrary: ev) (auto split: option.splits if_splits prod.splits)

lemma wait_for_mongodb_events:
  "ev \<in> set (snd (wait_for_mongodb w uri m d)) \<Longrightarrow>
     target ev = None \<and> \<not> is_insert ev \<and> \<not> is_parse ev \<and> \<not> is_env_get ev
       \<and> parsed_path ev = None"
  using wait_loop_events [of ev w "MongoClient uri" m d "[0..<nat m]"]
  by (auto simp: wait_for_mongodb_def split: prod.splits)

lemma load_dataset_events:
  "ev \<in> set (snd (load_dataset w p)) \<Longrightarrow>
     target ev = None \<and> \<not> is_insert ev \<and> \<not> is_env_get ev
       \<and> (parsed_path ev = None \<or> parsed_path ev = Some p)"
  by (auto simp: load_dataset_parse parse_file_run split: sum.splits)

lemma filter_none: "(\<And>x. x \<in> set xs \<Longrightarrow> \<not> P x) \<Longrightarrow> filter P xs = []"
  by (induction xs) auto

lemma wait_for_mongodb_no_insert [simp]:
  "filter is_insert (snd (wait_for_mongodb w uri m d)) = []"
  by (rule filter_none) (use wait_for_mongodb_events in blast)

lemma wait_for_mongodb_no_parse [simp]:
  "filter is_parse (snd (wait_for_mongodb w uri m d)) = []"
  by (rule filter_none) (use wait_for_mongodb_events in blast)

lemma wait_for_mongodb_no_env_get [simp]:
  "filter is_env_get (snd (wait_for_mongodb w uri m d)) = []"
  by (rule filter_none) (use wait_for_mongodb_events in blast)

lemma load_dataset_no_insert [simp]:
  "filter is_insert (snd (load_dataset w p)) = []"
  by (rule filter_none) (use load_dataset_events in blast)

lemma load_dataset_no_env_get [simp]:
  "filter is_env_get (snd (load_dataset w p)) = []"
  by (rule filter_none) (use load_dataset_events in blast)

lemma wait_for_mongodb_reachable:
  assumes "k < nat m" and "ismaster w k = None"
  shows "fst (wait_for_mongodb w uri m d) = Inr (Some (MongoClient uri))"
proof -
  define k0 where "k0 = (LEAST j. ismaster w j = None)"
  have k0: "ismaster w k0 = None" unfolding k0_def using assms(2) by (rule LeastI)
  have le: "k0 \<le> k" unfolding k0_def using assms(2) by (rule Least_le)
  have before: "\<forall>i. 0 \<le> i \<and> i < k0 \<longrightarrow> ismaster w i \<noteq> None"
    unfolding k0_def using not_less_Least by blast
  have "wait_loop w (MongoClient uri) m d [0..<nat m] =
      (Inr (Some (MongoClient uri)),
       failed_attempts m d [0..<k0] @ [IsMaster, Print MongoAvailable])"
    using before k0 le assms(1) by (intro wait_loop_success) auto
  then show ?thesis by (simp add: wait_for_mongodb_def)
qed

lemma main_run:
  assumes "environ_get env ''MONGO_URI'' ''mongodb://mongodb:27017/german_credit'' = uri"
    and "environ_get env ''DATASET_PATH'' ''/app/german_credit_data.xls'' = path"
    and "last (split CHR ''/'' uri) = db"
  shows "\<exists>rest. snd (main w env) =
      [EnvGet ''MONGO_URI'', EnvGet ''DATASET_PATH''] @ snd (wait_for_mongodb w uri 30 2) @ rest
    \<and> (rest = [] \<or> (\<exists>rest'. rest = CountDocuments db ''reports'' # rest'
          \<and> (rest' = [] \<or> (\<exists>n. rest' = [Print (AlreadyHas n)])
             \<or> (\<exists>tl. rest' = snd (load_dataset w path) @ tl
                  \<and> (tl = [] \<or> (\<exists>docs. tl = [InsertMany db ''reports'' docs])
                     \<or> (\<exists>docs n. tl = [InsertMany db ''reports'' docs, Print (Seeded n db)]))))))"
proof (cases "wait_for_mongodb w uri 30 2")
  case (Pair r evs1)
  show ?thesis
  proof (cases r)
    case (Inl x)
    with Pair assms show ?thesis by (simp add: main_def)
  next
    case (Inr oc)
    show ?thesis
    proof (cases oc)
      case None
      with Pair Inr assms show ?thesis by (simp add: main_def)
    next
      case (Some c)
      show ?thesis
      proof (cases "get_database w db")
        case refused: (Some e)
        with Pair Inr Some assms show ?thesis by (simp add: main_def)
      next
        case found: None
        show ?thesis
        proof (cases "count_documents w db ''reports''")
          case (Inl e)
          with Pair Inr Some found assms show ?thesis by (simp add: main_def)
        next
          case cnt: (Inr n)
          show ?thesis
          proof (cases "0 < n")
            case True
            with Pair Inr Some found cnt assms show ?thesis by (simp add: main_def)
          next
            case False
            obtain rd evs3 where ld: "load_dataset w path = (rd, evs3)"
              by (cases "load_dataset w path")
            show ?thesis
            proof (cases rd)
              case (Inl x)
              with Pair Inr Some found cnt False ld assms show ?thesis by (simp add: main_def)
            next
              case df: (Inr df)
              show ?thesis
              proof (cases "insert_many w db ''reports'' (to_dict_records df)")
                case (Inl e)
                with Pair Inr Some found cnt False ld df assms show ?thesis
                  by (simp add: main_def)
              next
                case ins: (Inr m)
                with Pair Inr Some found cnt False ld df assms show ?thesis
                  by (simp add: main_def)
              qed
            qed
          qed
        qed
      qed
    qed
  qed
qed

lemma main_events:
  assumes "environ_get env ''MONGO_URI'' ''mongodb://mongodb:27017/german_credit'' = uri"
    and "environ_get env ''DATASET_PATH'' ''/app/german_credit_data.xls'' = path"
    and "ev \<in> set (snd (main w env))"
  shows "(target ev = None \<or> target ev = Some (last (split CHR ''/'' uri), ''reports''))
       \<and> (parsed_path ev = None \<or> parsed_path ev = Some path)"
proof -
  define db where "db = last (split CHR ''/'' uri)"
  from main_run [OF assms(1,2) db_def [symmetric], of w] obtain rest where
    run: "snd (main w env) =
      [EnvGet ''MONGO_URI'', EnvGet ''DATASET_PATH''] @ snd (wait_for_mongodb w uri 30 2) @ rest"
    and rest: "rest = [] \<or> (\<exists>rest'. rest = CountDocuments db ''reports'' # rest'
          \<and> (rest' = [] \<or> (\<exists>n. rest' = [Print (AlreadyHas n)])
             \<or> (\<exists>tl. rest' = snd (load_dataset w path) @ tl
                  \<and> (tl = [] \<or> (\<exists>docs. tl = [InsertMany db ''reports'' docs])
                     \<or> (\<exists>docs n. tl = [InsertMany db ''reports'' docs, Print (Seeded n db)])))))"
    by blast
  let ?ok = "\<lambda>ev. (target ev = None \<or> target ev = Some (db, ''reports''))
       \<and> (parsed_path ev = None \<or> parsed_path ev = Some path)"
  have w: "?ok ev" if "ev \<in> set (snd (wait_for_mongodb w uri 30 2))" for ev
    using wait_for_mongodb_events [OF that] by simp
  have l: "?ok ev" if "ev \<in> set (snd (load_dataset w path))" for ev
    using load_dataset_events [OF that] by simp
  have r: "?ok ev" if "ev \<in> set rest" for ev
    using rest that l by (elim disjE exE conjE) auto
  from assms(3) have "ev \<in> set [EnvGet ''MONGO_URI'', EnvGet ''DATASET_PATH'']
      \<or> ev \<in> set (snd (wait_for_mongodb w uri 30 2)) \<or> ev \<in> set rest"
    unfolding run by simp
  then have "?ok ev" using w r by auto
  then show ?thesis by (simp add: db_def)
qed

lemma main_env_gets:
  "filter is_env_get (snd (main w env)) = [EnvGet ''MONGO_URI'', EnvGet ''DATASET_PATH'']"
proof -
  define uri where "uri = environ_get env ''MONGO_URI'' ''mongodb://mongodb:27017/german_credit''"
  define path where "path = environ_get env ''DATASET_PATH'' ''/app/german_credit_data.xls''"
  define db where "db = last (split CHR ''/'' uri)"
  from main_run [OF uri_def [symmetric] path_def [symmetric] db_def [symmetric], of w]
  obtain rest where
    run: "snd (main w env) =
      [EnvGet ''MONGO_URI'', EnvGet ''DATASET_PATH''] @ snd (wait_for_mongodb w uri 30 2) @ rest"
    and rest: "rest = [] \<or> (\<exists>rest'. rest = CountDocuments db ''reports'' # rest'
          \<and> (rest' = [] \<or> (\<exists>n. rest' = [Print (AlreadyHas n)])
             \<or> (\<exists>tl. rest' = snd (load_dataset w path) @ tl
                  \<and> (tl = [] \<or> (\<exists>docs. tl = [InsertMany db ''reports'' docs])
                     \<or> (\<exists>docs n. tl = [InsertMany db ''reports'' docs, Print (Seeded n db)])))))"
    by blast
  have "filter is_env_get rest = []"
    using rest by (elim disjE exE conjE) simp_all
  then show ?thesis unfolding run by simp
qed

lemma main_new_client:
  "NewClient (environ_get env ''MONGO_URI'' ''mongodb://mongodb:27017/german_credit'')
     \<in> set (snd (main w env))"
proof -
  from main_run [OF refl refl refl, of w env] obtain rest where
    run: "snd (main w env) =
      [EnvGet ''MONGO_URI'', EnvGet ''DATASET_PATH''] @
      snd (wait_for_mongodb w
        (environ_get env ''MONGO_URI'' ''mongodb://mongodb:27017/german_credit'') 30 2) @ rest"
    by blast
  show ?thesis unfolding run by (simp add: wait_for_mongodb_def case_prod_beta)
qed

lemma main_counts:
  assumes "environ_get env ''MONGO_URI'' ''mongodb://mongodb:27017/german_credit'' = uri"
    and "k < 30" and "ismaster w k = None"
    and "get_database w (last (split CHR ''/'' uri)) = None"
  shows "CountDocuments (last (split CHR ''/'' uri)) ''reports'' \<in> set (snd (main w env))"
proof -
  have "fst (wait_for_mongodb w uri 30 2) = Inr (Some (MongoClient uri))"
    using assms(2,3) by (intro wait_for_mongodb_reachable [of k]) simp_all
  then show ?thesis
    using assms(1,4) by (simp add: main_def Let_def case_prod_beta split: sum.splits)
qed

text \<open>When the driver refuses the database name, line 65 raises and nothing follows.\<close>

lemma main_refused:
  assumes "environ_get env ''MONGO_URI'' ''mongodb://mongodb:27017/german_credit'' = uri"
    and "k < 30" and "ismaster w k = None"
    and "get_database w (last (split CHR ''/'' uri)) = Some e"
  shows "main w env =
      (Inl (Raised e),
       [EnvGet ''MONGO_URI'', EnvGet ''DATASET_PATH''] @ snd (wait_for_mongodb w uri 30 2))"
proof -
  have "fst (wait_for_mongodb w uri 30 2) = Inr (Some (MongoClient uri))"
    using assms(2,3) by (intro wait_for_mongodb_reachable [of k]) simp_all
  then show ?thesis
    using assms(1,4) by (simp add: main_def Let_def case_prod_beta)
qed

lemma main_cong:
  assumes "env' ''MONGO_URI'' = env ''MONGO_URI''"
    and "env' ''DATASET_PATH'' = env ''DATASET_PATH''"
  shows "main w env' = main w env"
  using assms by (simp add: main_def environ_get_def)


subsection \<open>The seed orchestrator\<close>

text \<open>
  Claim C1. When the service answers within the thirty probes of the waiter, the driver
  hands out the database, the count of the target collection is zero and the loader
  returns a dataframe \<open>df\<close>, the run of the
  orchestrator is: the two reads of the environment, the waiter, the count, the loader,
  and one call to \<^verbatim>\<open>insert_many\<close> (followed by the line that reports it when the call
  returns). That call is the only insert, and its documents are \<^verbatim>\<open>df.to_dict('records')\<close>:
  as many as \<open>df\<close> has rows, and, the column labels being distinct, each document is the
  labels paired with the cells of its row, so that the document of row \<open>i\<close> holds under
  the label of column \<open>j\<close> the cell of row \<open>i\<close> in column \<open>j\<close>.
\<close>

theorem main_seeds_empty_collection:
  assumes "environ_get env ''MONGO_URI'' ''mongodb://mongodb:27017/german_credit'' = uri"
    and "environ_get env ''DATASET_PATH'' ''/app/german_credit_data.xls'' = path"
    and "k < 30" and "ismaster w k = None"
    and "count_documents w (last (split CHR ''/'' uri)) ''reports'' = Inr 0"
    and "fst (load_dataset w path) = Inr df"
    and "get_database w (last (split CHR ''/'' uri)) = None"
  shows "snd (main w env) =
       [EnvGet ''MONGO_URI'', EnvGet ''DATASET_PATH''] @ snd (wait_for_mongodb w uri 30 2) @
       [CountDocuments (last (split CHR ''/'' uri)) ''reports''] @ snd (load_dataset w path) @
       InsertMany (last (split CHR ''/'' uri)) ''reports'' (to_dict_records df) #
       (case insert_many w (last (split CHR ''/'' uri)) ''reports'' (to_dict_records df) of
          Inl e \<Rightarrow> []
        | Inr m \<Rightarrow> [Print (Seeded m (last (split CHR ''/'' uri)))])
    \<and> filter is_insert (snd (main w env)) =
         [InsertMany (last (split CHR ''/'' uri)) ''reports'' (to_dict_records df)]
    \<and> length (to_dict_records df) = length (rows df)
    \<and> (distinct (columns df) \<longrightarrow>
         to_dict_records df = map (zip (columns df)) (rows df)
       \<and> (\<forall>i < length (rows df). \<forall>j < length (columns df).
            length (rows df ! i) = length (columns df) \<longrightarrow>
            map_of (to_dict_records df ! i) (columns df ! j) = Some (rows df ! i ! j)))"
proof -
  let ?db = "last (split CHR ''/'' uri)"
  have "fst (wait_for_mongodb w uri 30 2) = Inr (Some (MongoClient uri))"
    using assms(3,4) by (intro wait_for_mongodb_reachable [of k]) simp_all
  then have run: "snd (main w env) =
       [EnvGet ''MONGO_URI'', EnvGet ''DATASET_PATH''] @ snd (wait_for_mongodb w uri 30 2) @
       [CountDocuments ?db ''reports''] @ snd (load_dataset w path) @
       InsertMany ?db ''reports'' (to_dict_records df) #
       (case insert_many w ?db ''reports'' (to_dict_records df) of
          Inl e \<Rightarrow> []
        | Inr m \<Rightarrow> [Print (Seeded m ?db)])"
    using assms(1,2,5,6,7) by (simp add: main_def Let_def case_prod_beta split: sum.splits)
  have ins: "filter is_insert (snd (main w env)) =
         [InsertMany ?db ''reports'' (to_dict_records df)]"
    unfolding run by (simp split: sum.splits)
  have len: "length (to_dict_records df) = length (rows df)"
    by (simp add: to_dict_records_def)
  have cells: "map_of (to_dict_records df ! i) (columns df ! j) = Some (rows df ! i ! j)"
    if "distinct (columns df)" "i < length (rows df)" "j < length (columns df)"
      "length (rows df ! i) = length (columns df)" for i j
  proof -
    have "to_dict_records df ! i = zip (columns df) (rows df ! i)"
      using that(1,2) by (simp add: to_dict_records_distinct)
    then show ?thesis using that by (simp add: map_of_zip_nth)
  qed
  show ?thesis using run ins len cells to_dict_records_distinct by blast
qed

theorem main_seeds_empty_collection_witness:
  "filter is_insert
     (snd (main (sample_world 0 (Inl ''a'') (Inl ''b'') (Inr credit_frame) 0)
        [''MONGO_URI'' \<mapsto> ''mongodb://localhost:27017/credit'',
         ''DATASET_PATH'' \<mapsto> ''/data/credit.csv''])) =
     [InsertMany ''credit'' ''reports''
        [[(''Age'', 67), (''Job'', 2)], [(''Age'', 22), (''Job'', 2)]]]
   \<and> length (to_dict_records
        \<lparr>columns = [''Age'', ''Job''], rows = [[67, 2], [22, 2::int]]\<rparr>) = 2
   \<and> map_of (to_dict_records
        \<lparr>columns = [''Age'', ''Job''], rows = [[67, 2], [22, 2::int]]\<rparr> ! 1) ''Age'' = Some 22"
proof -
  let ?w = "sample_world 0 (Inl ''a'') (Inl ''b'') (Inr credit_frame) 0"
  let ?env = "[''MONGO_URI'' \<mapsto> ''mongodb://localhost:27017/credit'',
         ''DATASET_PATH'' \<mapsto> ''/data/credit.csv'']"
  let ?uri = "''mongodb://localhost:27017/credit''"
  let ?df = "\<lparr>columns = [''Age'', ''Job''], rows = [[67, 2], [22, 2::int]]\<rparr>"
  have h1: "environ_get ?env ''MONGO_URI'' ''mongodb://mongodb:27017/german_credit'' = ?uri"
    by (simp add: environ_get_def)
  have h2: "environ_get ?env ''DATASET_PATH'' ''/app/german_credit_data.xls'' = ''/data/credit.csv''"
    by (simp add: environ_get_def)
  have h3: "(0::nat) < 30" by simp
  have h4: "ismaster ?w 0 = None" by (simp add: sample_world_def)
  have h5: "count_documents ?w (last (split CHR ''/'' ?uri)) ''reports'' = Inr 0"
    by (simp add: sample_world_def)
  have h6: "fst (load_dataset ?w ''/data/credit.csv'') = Inr ?df"
    by (simp add: load_dataset_def parse_file_def sample_world_def clean_up_def
        drop_column_def credit_frame_def)
  have db: "last (split CHR ''/'' ?uri) = ''credit''" by simp
  have h7: "get_database ?w (last (split CHR ''/'' ?uri)) = None"
    unfolding db by (simp add: sample_world_def)
  have d: "distinct (columns ?df)" "(1::nat) < length (rows ?df)"
    "(0::nat) < length (columns ?df)" "length (rows ?df ! 1) = length (columns ?df)"
    by simp_all
  note t = main_seeds_empty_collection [OF h1 h2 h3 h4 h5 h6 h7, unfolded db]
  from t have "filter is_insert (snd (main ?w ?env)) =
      [InsertMany ''credit'' ''reports'' (to_dict_records ?df)]" by blast
  moreover from t d have recs: "to_dict_records ?df = map (zip (columns ?df)) (rows ?df)"
    by blast
  moreover from t have "length (to_dict_records ?df) = length (rows ?df)" by blast
  moreover from t d have "map_of (to_dict_records ?df ! 1) (columns ?df ! 0) =
      Some (rows ?df ! 1 ! 0)"
    by blast
  ultimately show ?thesis by simp
qed

text \<open>
  Claim C2. When the service answers within the thirty probes of the waiter, the driver
  hands out the database and the count of the target collection is \<open>n \<ge> 1\<close>, the
  orchestrator returns normally after the
  count and the line that reports it: the run holds no insert, so the collection is left
  as it was, and no call to a parser, so the loader is not invoked.
\<close>

theorem main_skips_nonempty_collection:
  assumes "environ_get env ''MONGO_URI'' ''mongodb://mongodb:27017/german_credit'' = uri"
    and "k < 30" and "ismaster w k = None"
    and "count_documents w (last (split CHR ''/'' uri)) ''reports'' = Inr n"
    and "0 < n"
    and "get_database w (last (split CHR ''/'' uri)) = None"
  shows "main w env =
      (Inr (),
       [EnvGet ''MONGO_URI'', EnvGet ''DATASET_PATH''] @ snd (wait_for_mongodb w uri 30 2) @
       [CountDocuments (last (split CHR ''/'' uri)) ''reports'', Print (AlreadyHas n)])
    \<and> filter is_insert (snd (main w env)) = []
    \<and> filter is_parse (snd (main w env)) = []"
proof -
  have "fst (wait_for_mongodb w uri 30 2) = Inr (Some (MongoClient uri))"
    using assms(2,3) by (intro wait_for_mongodb_reachable [of k]) simp_all
  then have "main w env =
      (Inr (),
       [EnvGet ''MONGO_URI'', EnvGet ''DATASET_PATH''] @ snd (wait_for_mongodb w uri 30 2) @
       [CountDocuments (last (split CHR ''/'' uri)) ''reports'', Print (AlreadyHas n)])"
    using assms(1,4,5,6) by (simp add: main_def Let_def case_prod_beta)
  then show ?thesis by simp
qed

theorem main_skips_nonempty_collection_witness:
  "main (sample_world 1 (Inl ''a'') (Inl ''b'') (Inl ''c'') 1000) Map.empty =
      (Inr (),
       [EnvGet ''MONGO_URI'', EnvGet ''DATASET_PATH''] @
       snd (wait_for_mongodb (sample_world 1 (Inl ''a'') (Inl ''b'') (Inl ''c'') 1000)
              ''mongodb://mongodb:27017/german_credit'' 30 2) @
       [CountDocuments ''german_credit'' ''reports'', Print (AlreadyHas 1000)])
    \<and> filter is_insert (snd (main (sample_world 1 (Inl ''a'') (Inl ''b'') (Inl ''c'') 1000)
         Map.empty)) = []
    \<and> filter is_parse (snd (main (sample_world 1 (Inl ''a'') (Inl ''b'') (Inl ''c'') 1000)
         Map.empty)) = []"
proof -
  let ?w = "sample_world 1 (Inl ''a'') (Inl ''b'') (Inl ''c'') 1000"
  let ?uri = "''mongodb://mongodb:27017/german_credit''"
  have h1: "environ_get Map.empty ''MONGO_URI'' ?uri = ?uri"
    by (simp add: environ_get_def)
  have h2: "(1::nat) < 30" by simp
  have h3: "ismaster ?w 1 = None" by (simp add: sample_world_def)
  have h4: "count_documents ?w (last (split CHR ''/'' ?uri)) ''reports'' = Inr 1000"
    by (simp add: sample_world_def)
  have h5: "(0::nat) < 1000" by simp
  have db: "last (split CHR ''/'' ?uri) = ''german_credit''" by simp
  have h6: "get_database ?w (last (split CHR ''/'' ?uri)) = None"
    unfolding db by (simp add: sample_world_def)
  show ?thesis
    using main_skips_nonempty_collection [OF h1 h2 h3 h4 h5 h6] unfolding db .
qed

text \<open>
  Claim C3. For every endpoint URI there is a segment \<open>seg\<close> without \<^verbatim>\<open>/\<close> that is what
  follows the last \<^verbatim>\<open>/\<close> of the URI (the whole URI when it has none), such that every call
  to the database in the run that names a collection, the count and the insert, names the
  collection \<^verbatim>\<open>reports\<close> of the database \<open>seg\<close>. The database is looked up under the name
  \<open>seg\<close>: once the service answers within the thirty probes, the count on that collection
  is issued when the driver hands the database out, and when the driver refuses the name
  the orchestrator raises the driver's exception and the run names no collection at all.
\<close>

theorem main_target_collection:
  assumes "environ_get env ''MONGO_URI'' ''mongodb://mongodb:27017/german_credit'' = uri"
  shows "\<exists>seg. CHR ''/'' \<notin> set seg
    \<and> (uri = seg \<or> (\<exists>pre. uri = pre @ CHR ''/'' # seg))
    \<and> (\<forall>ev \<in> set (snd (main w env)). target ev = None \<or> target ev = Some (seg, ''reports''))
    \<and> (\<forall>k < 30. ismaster w k = None \<and> get_database w seg = None \<longrightarrow>
          CountDocuments seg ''reports'' \<in> set (snd (main w env)))
    \<and> (\<forall>k < 30. \<forall>e. ismaster w k = None \<and> get_database w seg = Some e \<longrightarrow>
          fst (main w env) = Inl (Raised e)
        \<and> (\<forall>ev \<in> set (snd (main w env)). target ev = None))"
proof (intro exI conjI)
  show "CHR ''/'' \<notin> set (last (split CHR ''/'' uri))"
    using last_split [of uri] by blast
  show "uri = last (split CHR ''/'' uri) \<or> (\<exists>pre. uri = pre @ CHR ''/'' # last (split CHR ''/'' uri))"
    using last_split [of uri] by blast
  show "\<forall>ev \<in> set (snd (main w env)).
      target ev = None \<or> target ev = Some (last (split CHR ''/'' uri), ''reports'')"
    using main_events [OF assms refl, of _ w] by blast
  show "\<forall>k < 30. ismaster w k = None \<and> get_database w (last (split CHR ''/'' uri)) = None \<longrightarrow>
      CountDocuments (last (split CHR ''/'' uri)) ''reports'' \<in> set (snd (main w env))"
    using main_counts [OF assms, of _ w] by blast
  show "\<forall>k < 30. \<forall>e. ismaster w k = None \<and> get_database w (last (split CHR ''/'' uri)) = Some e \<longrightarrow>
      fst (main w env) = Inl (Raised e) \<and> (\<forall>ev \<in> set (snd (main w env)). target ev = None)"
  proof (intro allI impI)
    fix k e
    assume k: "k < 30"
      and "ismaster w k = None \<and> get_database w (last (split CHR ''/'' uri)) = Some e"
    then have up: "ismaster w k = None"
      and no: "get_database w (last (split CHR ''/'' uri)) = Some e"
      by simp_all
    have run: "main w env =
        (Inl (Raised e),
         [EnvGet ''MONGO_URI'', EnvGet ''DATASET_PATH''] @ snd (wait_for_mongodb w uri 30 2))"
      using assms k up no by (rule main_refused)
    have "target ev = None" if "ev \<in> set (snd (main w env))" for ev
    proof -
      from that have "ev \<in> set [EnvGet ''MONGO_URI'', EnvGet ''DATASET_PATH'']
          \<or> ev \<in> set (snd (wait_for_mongodb w uri 30 2))"
        unfolding run by simp
      then show ?thesis using wait_for_mongodb_events [of ev w uri 30 2] by auto
    qed
    with run show "fst (main w env) = Inl (Raised e)
        \<and> (\<forall>ev \<in> set (snd (main w env)). target ev = None)"
      by simp
  qed
qed

theorem main_target_collection_witness:
  "(\<exists>seg. seg = ''credit''
     \<and> CountDocuments seg ''reports'' \<in> set (snd (main
         (sample_world 0 (Inl ''a'') (Inl ''b'') (Inr credit_frame) 0)
         [''MONGO_URI'' \<mapsto> ''mongodb://localhost:27017/credit'']))
     \<and> list_all (\<lambda>ev. target ev = None \<or> target ev = Some (seg, ''reports''))
         (snd (main (sample_world 0 (Inl ''a'') (Inl ''b'') (Inr credit_frame) 0)
           [''MONGO_URI'' \<mapsto> ''mongodb://localhost:27017/credit''])))
   \<and> fst (main (sample_world 0 (Inl ''a'') (Inl ''b'') (Inr credit_frame) 0)
        [''MONGO_URI'' \<mapsto> ''mongodb://localhost:27017/'']) = Inl (Raised ''InvalidName'')
   \<and> list_all (\<lambda>ev. target ev = None)
        (snd (main (sample_world 0 (Inl ''a'') (Inl ''b'') (Inr credit_frame) 0)
          [''MONGO_URI'' \<mapsto> ''mongodb://localhost:27017/'']))"
proof -
  let ?w = "sample_world 0 (Inl ''a'') (Inl ''b'') (Inr credit_frame) 0"
  have up: "(0::nat) < 30" "ismaster ?w 0 = None" by (simp_all add: sample_world_def)
  have named: "\<exists>seg. seg = ''credit''
     \<and> CountDocuments seg ''reports'' \<in> set (snd (main ?w
         [''MONGO_URI'' \<mapsto> ''mongodb://localhost:27017/credit'']))
     \<and> list_all (\<lambda>ev. target ev = None \<or> target ev = Some (seg, ''reports''))
         (snd (main ?w [''MONGO_URI'' \<mapsto> ''mongodb://localhost:27017/credit'']))"
  proof -
    let ?env = "[''MONGO_URI'' \<mapsto> ''mongodb://localhost:27017/credit'']"
    let ?uri = "''mongodb://localhost:27017/credit''"
    have h: "environ_get ?env ''MONGO_URI'' ''mongodb://mongodb:27017/german_credit'' = ?uri"
      by (simp add: environ_get_def)
    from main_target_collection [OF h, of ?w] obtain seg where
      seg: "CHR ''/'' \<notin> set seg" "?uri = seg \<or> (\<exists>pre. ?uri = pre @ CHR ''/'' # seg)"
      and all: "\<forall>ev \<in> set (snd (main ?w ?env)).
          target ev = None \<or> target ev = Some (seg, ''reports'')"
      and cnt: "\<forall>k < 30. ismaster ?w k = None \<and> get_database ?w seg = None \<longrightarrow>
          CountDocuments seg ''reports'' \<in> set (snd (main ?w ?env))"
      by blast
    from seg have "\<exists>pre. ?uri = pre @ CHR ''/'' # seg" by auto
    then obtain pre where "?uri = pre @ CHR ''/'' # seg" by blast
    from after_last_unique [OF this seg(1)] have name: "seg = ''credit''" by simp
    then have "get_database ?w seg = None" by (simp add: sample_world_def)
    with cnt up have "CountDocuments seg ''reports'' \<in> set (snd (main ?w ?env))"
      by blast
    moreover from all have
      "list_all (\<lambda>ev. target ev = None \<or> target ev = Some (seg, ''reports''))
        (snd (main ?w ?env))"
      by (simp add: list_all_iff)
    ultimately show ?thesis using name by blast
  qed
  have refused: "fst (main ?w [''MONGO_URI'' \<mapsto> ''mongodb://localhost:27017/'']) =
        Inl (Raised ''InvalidName'')
      \<and> list_all (\<lambda>ev. target ev = None)
          (snd (main ?w [''MONGO_URI'' \<mapsto> ''mongodb://localhost:27017/'']))"
  proof -
    let ?env = "[''MONGO_URI'' \<mapsto> ''mongodb://localhost:27017/'']"
    let ?uri = "''mongodb://localhost:27017/''"
    have h: "environ_get ?env ''MONGO_URI'' ''mongodb://mongodb:27017/german_credit'' = ?uri"
      by (simp add: environ_get_def)
    from main_target_collection [OF h, of ?w] obtain seg where
      seg: "CHR ''/'' \<notin> set seg" "?uri = seg \<or> (\<exists>pre. ?uri = pre @ CHR ''/'' # seg)"
      and no: "\<forall>k < 30. \<forall>e. ismaster ?w k = None \<and> get_database ?w seg = Some e \<longrightarrow>
          fst (main ?w ?env) = Inl (Raised e)
        \<and> (\<forall>ev \<in> set (snd (main ?w ?env)). target ev = None)"
      by blast
    from seg have "\<exists>pre. ?uri = pre @ CHR ''/'' # seg" by auto
    then obtain pre where "?uri = pre @ CHR ''/'' # seg" by blast
    from after_last_unique [OF this seg(1)] have "seg = []" by simp
    then have "get_database ?w seg = Some ''InvalidName''" by (simp add: sample_world_def)
    with no up have "fst (main ?w ?env) = Inl (Raised ''InvalidName'')
        \<and> (\<forall>ev \<in> set (snd (main ?w ?env)). target ev = None)"
      by blast
    then show ?thesis by (simp add: list_all_iff)
  qed
  from named refused show ?thesis by blast
qed

text \<open>
  Claim C8. The orchestrator reads the environment exactly twice, the variables
  \<^verbatim>\<open>MONGO_URI\<close> and \<^verbatim>\<open>DATASET_PATH\<close>, and nothing else of the environment matters to it. An
  unset variable acts as if set to its default, \<^verbatim>\<open>mongodb://mongodb:27017/german_credit\<close>
  and \<^verbatim>\<open>/app/german_credit_data.xls\<close>; a set variable is the URI the client is built from,
  and the path every parser is called with. The default URI ends in the database name
  \<^verbatim>\<open>german_credit\<close> as its last segment, and the default path ends in \<^verbatim>\<open>.xls\<close>.
\<close>

theorem main_configuration:
  "filter is_env_get (snd (main w env)) = [EnvGet ''MONGO_URI'', EnvGet ''DATASET_PATH'']
   \<and> (env' ''MONGO_URI'' = env ''MONGO_URI'' \<and> env' ''DATASET_PATH'' = env ''DATASET_PATH''
        \<longrightarrow> main w env' = main w env)
   \<and> (env ''MONGO_URI'' = None \<longrightarrow>
        main w env = main w (env(''MONGO_URI'' \<mapsto> ''mongodb://mongodb:27017/german_credit'')))
   \<and> (env ''DATASET_PATH'' = None \<longrightarrow>
        main w env = main w (env(''DATASET_PATH'' \<mapsto> ''/app/german_credit_data.xls'')))
   \<and> (\<forall>u. env ''MONGO_URI'' = Some u \<longrightarrow> NewClient u \<in> set (snd (main w env)))
   \<and> (\<forall>p ev. env ''DATASET_PATH'' = Some p \<and> ev \<in> set (snd (main w env)) \<and> is_parse ev
        \<longrightarrow> parsed_path ev = Some p)
   \<and> last (split CHR ''/'' ''mongodb://mongodb:27017/german_credit'') = ''german_credit''
   \<and> (\<exists>stem. ''/app/german_credit_data.xls'' = stem @ ''.xls'')"
proof (intro conjI impI allI)
  show "filter is_env_get (snd (main w env)) = [EnvGet ''MONGO_URI'', EnvGet ''DATASET_PATH'']"
    by (rule main_env_gets)
  show "main w env' = main w env"
    if "env' ''MONGO_URI'' = env ''MONGO_URI'' \<and> env' ''DATASET_PATH'' = env ''DATASET_PATH''"
    using that by (intro main_cong) simp_all
  show "main w env = main w (env(''MONGO_URI'' \<mapsto> ''mongodb://mongodb:27017/german_credit''))"
    if "env ''MONGO_URI'' = None"
    using that by (simp add: main_def environ_get_def)
  show "main w env = main w (env(''DATASET_PATH'' \<mapsto> ''/app/german_credit_data.xls''))"
    if "env ''DATASET_PATH'' = None"
    using that by (simp add: main_def environ_get_def)
  show "NewClient u \<in> set (snd (main w env))" if "env ''MONGO_URI'' = Some u" for u
    using main_new_client [of env w] that by (simp add: environ_get_def)
  show "parsed_path ev = Some p"
    if "env ''DATASET_PATH'' = Some p \<and> ev \<in> set (snd (main w env)) \<and> is_parse ev" for p ev
  proof -
    from that have some: "parsed_path ev \<noteq> None" by (cases ev) auto
    have p: "environ_get env ''DATASET_PATH'' ''/app/german_credit_data.xls'' = p"
      using that by (simp add: environ_get_def)
    from that have mem: "ev \<in> set (snd (main w env))" by simp
    have "parsed_path ev = None \<or> parsed_path ev = Some p"
      using main_events [OF refl p mem] by (rule conjunct2)
    with some show ?thesis by auto
  qed
  show "last (split CHR ''/'' ''mongodb://mongodb:27017/german_credit'') = ''german_credit''"
    by simp
  show "\<exists>stem. ''/app/german_credit_data.xls'' = stem @ ''.xls''"
    by (rule exI [of _ "''/app/german_credit_data''"]) simp
qed

theorem main_configuration_witness:
  "filter is_env_get (snd (main (sample_world 0 (Inl ''a'') (Inl ''b'') (Inr credit_frame) 0)
       Map.empty)) = [EnvGet ''MONGO_URI'', EnvGet ''DATASET_PATH'']
   \<and> main (sample_world 0 (Inl ''a'') (Inl ''b'') (Inr credit_frame) 0) Map.empty =
       main (sample_world 0 (Inl ''a'') (Inl ''b'') (Inr credit_frame) 0)
         [''MONGO_URI'' \<mapsto> ''mongodb://mongodb:27017/german_credit'']
   \<and> main (sample_world 0 (Inl ''a'') (Inl ''b'') (Inr credit_frame) 0) Map.empty =
       main (sample_world 0 (Inl ''a'') (Inl ''b'') (Inr credit_frame) 0)
         [''DATASET_PATH'' \<mapsto> ''/app/german_credit_data.xls'']
   \<and> NewClient ''mongodb://localhost:27017/credit'' \<in> set (snd (main
         (sample_world 0 (Inl ''a'') (Inl ''b'') (Inr credit_frame) 0)
         [''MONGO_URI'' \<mapsto> ''mongodb://localhost:27017/credit'']))"
proof -
  let ?w = "sample_world 0 (Inl ''a'') (Inl ''b'') (Inr credit_frame) 0"
  have unset: "(Map.empty :: string \<rightharpoonup> string) ''MONGO_URI'' = None"
    "(Map.empty :: string \<rightharpoonup> string) ''DATASET_PATH'' = None"
    by simp_all
  have set: "[''MONGO_URI'' \<mapsto> ''mongodb://localhost:27017/credit''] ''MONGO_URI'' =
      Some ''mongodb://localhost:27017/credit''"
    by simp
  note a = main_configuration [of ?w Map.empty Map.empty]
  note b = main_configuration
    [of ?w "[''MONGO_URI'' \<mapsto> ''mongodb://localhost:27017/credit'']" Map.empty]
  from a unset have "filter is_env_get (snd (main ?w Map.empty)) =
      [EnvGet ''MONGO_URI'', EnvGet ''DATASET_PATH'']"
    "main ?w Map.empty = main ?w [''MONGO_URI'' \<mapsto> ''mongodb://mongodb:27017/german_credit'']"
    "main ?w Map.empty = main ?w [''DATASET_PATH'' \<mapsto> ''/app/german_credit_data.xls'']"
    by blast+
  moreover from b set have "NewClient ''mongodb://localhost:27017/credit'' \<in> set (snd (main ?w
      [''MONGO_URI'' \<mapsto> ''mongodb://localhost:27017/credit'']))"
    by blast
  ultimately show ?thesis by blast
qed

end
